theory Spec2Isabelle
  imports Main "HOL-Library.Word"
begin

section \<open>Data model (periodicTable.h, unionStack.h)\<close>

text \<open>
  A C string is modelled as the list of its characters before the terminating NUL. A C
  \<open>int\<close> is a 32-bit word, read as a signed number by \<open>sint\<close>. C leaves the
  overflow of a signed \<open>int\<close> undefined; on the words \<open>+\<close> and \<open>-\<close> wrap
  around, as the two's complement machine does.
  \<open>Element\<close> is the struct of periodicTable.h: \<open>chemSymbol\<close> is the contents of the
  \<open>char[4]\<close> field read as a C string, \<open>atomicNumber\<close> the \<open>int\<close> field.
\<close>

definition INT_MAX :: "32 word" where
  "INT_MAX = 2147483647"

record Element =
  chemSymbol :: string
  atomicNumber :: "32 word"

datatype StackDataType = CHAR_TYPE | ELEMENT_TYPE

text \<open>
  \<open>StackData\<close> is the C union. Reading the member that was not written last (the
  selector applied to the other constructor) is left unspecified.
\<close>

datatype StackData = CharData (charData: char) | ElementData (elementData: Element)

text \<open>
  A \<open>StackNode\<close> holds the payload and its tag; the \<open>next\<close> pointer is the rest of the
  list of nodes. In \<open>UnionStack\<close>, \<open>top_s\<close> is the linked list that hangs from the C
  field \<open>top\<close> (\<open>[]\<close> is \<open>NULL\<close>) and \<open>size_s\<close> is the C field \<open>size\<close>.
\<close>

record StackNode =
  data :: StackData
  dataType :: StackDataType

record UnionStack =
  top_s :: "StackNode list"
  size_s :: "32 word"

datatype exit_status = EXIT_SUCCESS | EXIT_FAILURE

text \<open>What \<open>perror\<close> writes to the error stream, one entry per call.\<close>

datatype diagnostic = PopEmptyStack

section \<open>The stack (unionStack.c)\<close>

text \<open>
  Every caller in the repository passes the non-NULL pointer it got from
  \<open>initUnionStack\<close>, and \<open>malloc\<close> is taken to succeed; so the pushes always
  return \<open>EXIT_SUCCESS\<close> (which no caller reads) and are modelled by the stack they
  leave behind. The field \<open>size\<close> is an \<open>int\<close>: \<open>size++\<close> at \<open>INT_MAX\<close>
  wraps around to the least \<open>int\<close>.
\<close>

definition initUnionStack :: UnionStack where
  "initUnionStack = \<lparr>top_s = [], size_s = 0\<rparr>"

definition isEmptyUnion :: "UnionStack \<Rightarrow> bool" where
  "isEmptyUnion stack = (top_s stack = [])"

definition pushCharUnion :: "UnionStack \<Rightarrow> char \<Rightarrow> UnionStack" where
  "pushCharUnion stack c =
     stack\<lparr>top_s := \<lparr>data = CharData c, dataType = CHAR_TYPE\<rparr> # top_s stack,
           size_s := size_s stack + 1\<rparr>"

definition pushElementUnion :: "UnionStack \<Rightarrow> Element \<Rightarrow> UnionStack" where
  "pushElementUnion stack element =
     stack\<lparr>top_s := \<lparr>data = ElementData element, dataType = ELEMENT_TYPE\<rparr> # top_s stack,
           size_s := size_s stack + 1\<rparr>"

text \<open>
  \<open>popUnion\<close> writes through two out-pointers. The locations they point to are
  arguments and results of the model; \<open>None\<close> is a location that holds no written
  value yet (an uninitialised local of the caller). The last component is the error
  stream.
\<close>

definition popUnion ::
  "UnionStack \<Rightarrow> StackData option \<Rightarrow> StackDataType option \<Rightarrow> diagnostic list \<Rightarrow>
   exit_status \<times> UnionStack \<times> StackData option \<times> StackDataType option \<times> diagnostic list" where
  "popUnion stack returnValue returnType err =
     (case top_s stack of
        [] \<Rightarrow> (EXIT_FAILURE, stack, returnValue, returnType, err @ [PopEmptyStack])
      | temp # next \<Rightarrow>
          (let stack1 = stack\<lparr>top_s := next, size_s := size_s stack - 1\<rparr>;
               stack2 = (if size_s stack1 = 0 then stack1\<lparr>top_s := []\<rparr> else stack1)
           in (EXIT_SUCCESS, stack2, Some (data temp), Some (dataType temp), err)))"

text \<open>A client of the stack: any sequence of the three mutating operations.\<close>

datatype stack_op = PushChar char | PushElement Element | Pop

fun apply_op :: "UnionStack \<Rightarrow> stack_op \<Rightarrow> UnionStack" where
  "apply_op stack (PushChar c) = pushCharUnion stack c"
| "apply_op stack (PushElement e) = pushElementUnion stack e"
| "apply_op stack Pop = fst (snd (popUnion stack None None []))"

definition run_ops :: "stack_op list \<Rightarrow> UnionStack" where
  "run_ops ops = foldl apply_op initUnionStack ops"

section \<open>Character classes (ctype.h)\<close>

text \<open>
  The classification functions of \<open>ctype.h\<close> in the C locale: only ASCII letters and
  digits are classified; every other byte, the NUL terminator included, is neither.
\<close>

definition isupper :: "char \<Rightarrow> bool" where
  "isupper c = (65 \<le> (of_char c :: nat) \<and> (of_char c :: nat) \<le> 90)"

definition islower :: "char \<Rightarrow> bool" where
  "islower c = (97 \<le> (of_char c :: nat) \<and> (of_char c :: nat) \<le> 122)"

definition isalpha :: "char \<Rightarrow> bool" where
  "isalpha c = (isupper c \<or> islower c)"

definition isdigit :: "char \<Rightarrow> bool" where
  "isdigit c = (48 \<le> (of_char c :: nat) \<and> (of_char c :: nat) \<le> 57)"

text \<open>
  The cursor \<open>p\<close> of the scanning loops is the string that remains to be read;
  \<open>nth_char p k\<close> is the character \<open>p[k]\<close> of C, the terminating NUL when
  \<open>k\<close> is the length.
\<close>

definition nth_char :: "string \<Rightarrow> nat \<Rightarrow> char" where
  "nth_char p k = (if k < length p then p ! k else CHR 0x00)"

section \<open>Parentheses validation (formulaExpander.c, checkParentheses)\<close>

text \<open>
  The loop of lines 288 to 304, on the cursor, the stack and the flag \<open>valid\<close>.
  \<open>poppedData\<close> and \<open>poppedType\<close> are declared afresh in the branch that pops, so
  the pop starts from two unwritten locations; the pop is guarded by \<open>isEmptyUnion\<close>
  and what it would write to the error stream is not kept.
\<close>

fun checkParentheses_loop :: "string \<Rightarrow> UnionStack \<Rightarrow> bool \<Rightarrow> UnionStack \<times> bool" where
  "checkParentheses_loop [] stack valid = (stack, valid)"
| "checkParentheses_loop (c # cs) stack valid =
     (if \<not> valid then (stack, valid)
      else if c = CHR ''('' then checkParentheses_loop cs (pushCharUnion stack c) valid
      else if c = CHR '')'' then
        (if \<not> isEmptyUnion stack then
           (case popUnion stack None None [] of
              (r, stack', poppedData, poppedType, e) \<Rightarrow>
                checkParentheses_loop cs stack'
                  (if poppedType \<noteq> Some CHAR_TYPE \<or> charData (the poppedData) \<noteq> CHR ''(''
                   then False else valid))
         else checkParentheses_loop cs stack False)
      else checkParentheses_loop cs stack valid)"

text \<open>
  checkParentheses: the loop, then the test for leftover opening parentheses (lines 306
  to 309). The clean-up of lines 311 to 318 only releases the nodes that are left.
\<close>

definition checkParentheses :: "string \<Rightarrow> bool" where
  "checkParentheses formula =
     (case checkParentheses_loop formula initUnionStack True of
        (stack, valid) \<Rightarrow> if valid \<and> \<not> isEmptyUnion stack then False else valid)"

text \<open>
  The validator as section 4.4 of the specification words it, for comparison with
  checkParentheses: a stack of characters; push on an opening parenthesis; on a closing
  one fail at once if the stack is empty or the popped entry is not an opening
  parenthesis; after the scan fail if the stack is not empty.
\<close>

fun isBalanced_scan :: "string \<Rightarrow> char list \<Rightarrow> bool" where
  "isBalanced_scan [] st = (st = [])"
| "isBalanced_scan (c # cs) st =
     (if c = CHR ''('' then isBalanced_scan cs (c # st)
      else if c = CHR '')'' then
        (case st of
           [] \<Rightarrow> False
         | x # st' \<Rightarrow> if x = CHR ''('' then isBalanced_scan cs st' else False)
      else isBalanced_scan cs st)"

definition isBalanced_spec :: "string \<Rightarrow> bool" where
  "isBalanced_spec formula = isBalanced_scan formula []"

section \<open>Proton counting (periodicTable.c, formulaExpander.c)\<close>

definition MAX_ELEMENTS :: int where
  "MAX_ELEMENTS = 118"

text \<open>
  getAtomicNumber, lines 67 to 75 of periodicTable.c. The array is the list of its
  slots; a slot past the end of the list stands for memory whose contents are not known
  (\<open>elements ! i\<close> is unspecified there). The loop index stays below \<open>n\<close>; the
  atomic numbers and the total of a line are \<open>int\<close>s, hence 32-bit words.
\<close>

function getAtomicNumber_loop :: "Element list \<Rightarrow> nat \<Rightarrow> int \<Rightarrow> string \<Rightarrow> 32 word" where
  "getAtomicNumber_loop elements i n symbol =
     (if int i < n then
        (if chemSymbol (elements ! i) = symbol then atomicNumber (elements ! i)
         else getAtomicNumber_loop elements (i + 1) n symbol)
      else - 1)"
  by pat_completeness auto
termination
  by (relation "measure (\<lambda>(elements, i, n, symbol). nat (n - int i))") auto

declare getAtomicNumber_loop.simps [simp del]

definition getAtomicNumber :: "Element list \<Rightarrow> int \<Rightarrow> string \<Rightarrow> 32 word" where
  "getAtomicNumber elements n symbol = getAtomicNumber_loop elements 0 n symbol"

text \<open>
  The symbol read at the cursor in countProtons (lines 233 to 251), as
  \<open>processFormula_symbol\<close> below is for processFormula.
\<close>

definition countProtons_symbol :: "string \<Rightarrow> Element \<times> nat" where
  "countProtons_symbol p =
     (if isupper (nth_char p 0) \<and> islower (nth_char p 1) \<and> islower (nth_char p 2)
      then (\<lparr>chemSymbol = [nth_char p 0, nth_char p 1, nth_char p 2], atomicNumber = 0\<rparr>, 2)
      else if isupper (nth_char p 0) \<and> islower (nth_char p 1)
      then (\<lparr>chemSymbol = [nth_char p 0, nth_char p 1], atomicNumber = 0\<rparr>, 1)
      else (\<lparr>chemSymbol = [nth_char p 0], atomicNumber = 0\<rparr>, 0))"

text \<open>
  The body of countProtons for one line read from the file of expanded formulas (lines
  229 to 261): the total of the line; \<open>fprintf\<close> prints its signed value
  (\<open>sint\<close>).
\<close>

function countProtons_loop :: "string \<Rightarrow> Element list \<Rightarrow> 32 word \<Rightarrow> 32 word" where
  "countProtons_loop [] periodicTable totalAtomicNumber = totalAtomicNumber"
| "countProtons_loop (c # cs) periodicTable totalAtomicNumber =
     (if isalpha c then
        countProtons_loop (drop (snd (countProtons_symbol (c # cs))) cs) periodicTable
          (totalAtomicNumber
           + getAtomicNumber periodicTable MAX_ELEMENTS
               (chemSymbol (fst (countProtons_symbol (c # cs)))))
      else countProtons_loop cs periodicTable totalAtomicNumber)"
  by pat_completeness auto
termination
  by (relation "measure (\<lambda>(p, periodicTable, totalAtomicNumber). length p)") auto

definition countProtons_line :: "string \<Rightarrow> Element list \<Rightarrow> 32 word" where
  "countProtons_line formula periodicTable = countProtons_loop formula periodicTable 0"

section \<open>Formula expansion (formulaExpander.c, processFormula)\<close>

text \<open>
  The symbol read when the character at the cursor is a letter (lines 59 to 76): the
  element built and the number of characters the branch itself advances \<open>p\<close> by;
  the loop's own \<open>p++\<close> then steps over one more.
\<close>

definition processFormula_symbol :: "string \<Rightarrow> Element \<times> nat" where
  "processFormula_symbol p =
     (if isupper (nth_char p 0) \<and> islower (nth_char p 1) \<and> islower (nth_char p 2)
      then (\<lparr>chemSymbol = [nth_char p 0, nth_char p 1, nth_char p 2], atomicNumber = 1\<rparr>, 2)
      else if isupper (nth_char p 0) \<and> islower (nth_char p 1)
      then (\<lparr>chemSymbol = [nth_char p 0, nth_char p 1], atomicNumber = 1\<rparr>, 1)
      else (\<lparr>chemSymbol = [nth_char p 0], atomicNumber = 1\<rparr>, 0))"

text \<open>
  The digit loops (lines 83 to 86 and 113 to 116): \<open>multiplier\<close> is a C \<open>int\<close>, here
  a 32-bit word. C leaves the overflow of a signed \<open>int\<close> undefined; the model takes
  the two's complement wrap-around. The result is the value and the cursor after the
  digits.
\<close>

fun read_multiplier :: "32 word \<Rightarrow> string \<Rightarrow> 32 word \<times> string" where
  "read_multiplier multiplier [] = (multiplier, [])"
| "read_multiplier multiplier (c # cs) =
     (if isdigit c
      then read_multiplier (multiplier * 10 + (of_nat (of_char c) - 48)) cs
      else (multiplier, c # cs))"

text \<open>
  A counting loop \<open>for (int i = 0; i < n; i++)\<close> over a signed 32-bit bound runs
  \<open>nat (sint n)\<close> times (not at all when the bound is negative).
\<close>

definition loop_count :: "32 word \<Rightarrow> nat" where
  "loop_count n = nat (sint n)"

text \<open>
  The model of processFormula stops with a fault at two steps: a write to
  \<open>tempArray\<close> at an index that is not below \<open>MAX_FORMULA_LENGTH\<close> (the array has
  that many slots and \<open>tempIndex\<close> is never tested), and a push onto a stack whose
  \<open>size\<close> is \<open>INT_MAX\<close> (the \<open>size++\<close> of the push overflows, and the field
  no longer counts the entries). Nothing is said about a run after such a step.
\<close>

datatype fault = TempArrayOverflow | SizeOverflow

definition MAX_FORMULA_LENGTH :: nat where
  "MAX_FORMULA_LENGTH = 1024"

text \<open>The local variables of processFormula that the loops change, and the error stream.\<close>

record locals =
  stack :: UnionStack
  poppedData :: "StackData option"
  poppedType :: "StackDataType option"
  err :: "diagnostic list"

definition pop_locals :: "locals \<Rightarrow> exit_status \<times> locals" where
  "pop_locals st =
     (case popUnion (stack st) (poppedData st) (poppedType st) (err st) of
        (r, stack', value', type', err') \<Rightarrow>
          (r, \<lparr>stack = stack', poppedData = value', poppedType = type', err = err'\<rparr>))"

text \<open>A call of pushElementUnion from processFormula, on either of its two stacks.\<close>

definition push_checked :: "UnionStack \<Rightarrow> Element \<Rightarrow> fault + UnionStack" where
  "push_checked s element =
     (if size_s s = INT_MAX then Inl SizeOverflow else Inr (pushElementUnion s element))"

definition push_locals :: "Element \<Rightarrow> locals \<Rightarrow> fault + locals" where
  "push_locals element st =
     (case push_checked (stack st) element of
        Inl f \<Rightarrow> Inl f
      | Inr s \<Rightarrow> Inr (st\<lparr>stack := s\<rparr>))"

text \<open>The loop of lines 90 to 92: the same element pushed a number of times.\<close>

fun push_times :: "nat \<Rightarrow> Element \<Rightarrow> locals \<Rightarrow> fault + locals" where
  "push_times 0 element st = Inr st"
| "push_times (Suc n) element st =
     (case push_locals element st of
        Inl f \<Rightarrow> Inl f
      | Inr st' \<Rightarrow> push_times n element st')"

text \<open>Lines 88 to 93: pop the last entry and push it back multiplier times.\<close>

definition apply_multiplier :: "32 word \<Rightarrow> locals \<Rightarrow> fault + locals" where
  "apply_multiplier multiplier st =
     (case pop_locals st of
        (r, st') \<Rightarrow>
          if r = EXIT_SUCCESS \<and> poppedType st' = Some ELEMENT_TYPE
          then push_times (loop_count multiplier) (elementData (the (poppedData st'))) st'
          else Inr st')"

text \<open>
  Lines 104 to 106: pop into tempArray until the pop fails, the entry is not an element,
  or its symbol is the group marker. \<open>tempArray\<close> is the list of the slots written so
  far (\<open>tempIndex\<close> is its length); a write when all \<open>MAX_FORMULA_LENGTH\<close> slots are
  taken is the fault.
\<close>

function pop_group :: "locals \<Rightarrow> Element list \<Rightarrow> fault + locals \<times> Element list" where
  "pop_group st tempArray =
     (if fst (pop_locals st) = EXIT_SUCCESS
         \<and> poppedType (snd (pop_locals st)) = Some ELEMENT_TYPE
         \<and> chemSymbol (elementData (the (poppedData (snd (pop_locals st))))) \<noteq> ''(''
      then (if length tempArray < MAX_FORMULA_LENGTH
            then pop_group (snd (pop_locals st))
                   (tempArray @ [elementData (the (poppedData (snd (pop_locals st))))])
            else Inl TempArrayOverflow)
      else Inr (snd (pop_locals st), tempArray))"
  by pat_completeness auto
termination
proof (relation "measure (\<lambda>(st, tempArray). length (top_s (stack st)))")
  show "wf (measure (\<lambda>(st, tempArray). length (top_s (stack st))))" by simp
next
  fix st :: locals and tempArray :: "Element list"
  assume "fst (pop_locals st) = EXIT_SUCCESS
    \<and> poppedType (snd (pop_locals st)) = Some ELEMENT_TYPE
    \<and> chemSymbol (elementData (the (poppedData (snd (pop_locals st))))) \<noteq> ''(''"
  then have "fst (pop_locals st) = EXIT_SUCCESS" by simp
  then have "length (top_s (stack (snd (pop_locals st)))) < length (top_s (stack st))"
    by (auto simp: pop_locals_def popUnion_def Let_def split: list.splits)
  then show "((snd (pop_locals st),
               tempArray @ [elementData (the (poppedData (snd (pop_locals st))))]),
              (st, tempArray)) \<in> measure (\<lambda>(st, tempArray). length (top_s (stack st)))"
    by simp
qed

declare pop_group.simps [simp del]

text \<open>
  Lines 119 to 124: push the group back, in its original order, groupMultiplier times.
  \<open>push_all\<close> is the inner loop over the slots it is given (the caller passes them
  from the last written to the first), \<open>push_group_times\<close> the outer loop.
\<close>

fun push_all :: "Element list \<Rightarrow> locals \<Rightarrow> fault + locals" where
  "push_all [] st = Inr st"
| "push_all (element # elements) st =
     (case push_locals element st of
        Inl f \<Rightarrow> Inl f
      | Inr st' \<Rightarrow> push_all elements st')"

fun push_group_times :: "nat \<Rightarrow> Element list \<Rightarrow> locals \<Rightarrow> fault + locals" where
  "push_group_times 0 tempArray st = Inr st"
| "push_group_times (Suc n) tempArray st =
     (case push_all (rev tempArray) st of
        Inl f \<Rightarrow> Inl f
      | Inr st' \<Rightarrow> push_group_times n tempArray st')"

definition push_group :: "32 word \<Rightarrow> Element list \<Rightarrow> locals \<Rightarrow> fault + locals" where
  "push_group groupMultiplier tempArray st =
     push_group_times (loop_count groupMultiplier) tempArray st"

text \<open>Lines 108 to 117: the optional multiplier after the closing parenthesis.\<close>

definition read_group_multiplier :: "string \<Rightarrow> 32 word \<times> string" where
  "read_group_multiplier p = (if isdigit (nth_char p 0) then read_multiplier 0 p else (1, p))"

text \<open>Lines 99 to 126: the whole branch of the closing parenthesis, but for the cursor.\<close>

definition close_group :: "32 word \<Rightarrow> locals \<Rightarrow> fault + locals" where
  "close_group groupMultiplier st =
     (case pop_group st [] of
        Inl f \<Rightarrow> Inl f
      | Inr (st', tempArray) \<Rightarrow> push_group groupMultiplier tempArray st')"

text \<open>The scanning loop, lines 57 to 130.\<close>

function processFormula_loop :: "string \<Rightarrow> locals \<Rightarrow> fault + locals" where
  "processFormula_loop [] st = Inr st"
| "processFormula_loop (c # cs) st =
     (if isalpha c then
        (case push_locals (fst (processFormula_symbol (c # cs))) st of
           Inl f \<Rightarrow> Inl f
         | Inr st' \<Rightarrow>
             processFormula_loop (drop (snd (processFormula_symbol (c # cs))) cs) st')
      else if isdigit c then
        (case apply_multiplier (fst (read_multiplier 0 (c # cs))) st of
           Inl f \<Rightarrow> Inl f
         | Inr st' \<Rightarrow> processFormula_loop (snd (read_multiplier 0 (c # cs))) st')
      else if c = CHR ''('' then
        (case push_locals \<lparr>chemSymbol = ''('', atomicNumber = 0\<rparr> st of
           Inl f \<Rightarrow> Inl f
         | Inr st' \<Rightarrow> processFormula_loop cs st')
      else if c = CHR '')'' then
        (case close_group (fst (read_group_multiplier cs)) st of
           Inl f \<Rightarrow> Inl f
         | Inr st' \<Rightarrow> processFormula_loop (snd (read_group_multiplier cs)) st')
      else processFormula_loop cs st)"
  by pat_completeness auto
termination
proof (relation "measure (\<lambda>(p, st). length p)")
  have shorter: "length (snd (read_multiplier m p)) \<le> length p" for m p
    by (induction p arbitrary: m) (auto intro: le_SucI)
  show "wf (measure (\<lambda>(p, st :: locals). length p))" by simp
  show "((drop (snd (processFormula_symbol (c # cs))) cs, st'), c # cs, st)
        \<in> measure (\<lambda>(p, st). length p)" for c cs and st st' :: locals
    by simp
  show "((snd (read_multiplier 0 (c # cs)), st'), c # cs, st)
        \<in> measure (\<lambda>(p, st). length p)" if "isdigit c" for c cs and st st' :: locals
    using that shorter [of "0 * 10 + (of_nat (of_char c) - 48)" cs] by (simp add: le_imp_less_Suc)
  show "((cs, st'), c # cs, st) \<in> measure (\<lambda>(p, st). length p)"
    for c cs and st st' :: locals
    by simp
  show "((snd (read_group_multiplier cs), st'), c # cs, st)
        \<in> measure (\<lambda>(p, st). length p)" for c cs and st st' :: locals
    using shorter [of 0 cs] by (simp add: read_group_multiplier_def le_imp_less_Suc)
  show "((cs, st), c # cs, st) \<in> measure (\<lambda>(p, st :: locals). length p)" for c cs st
    by simp
qed

declare processFormula_loop.simps [simp del]

text \<open>
  Lines 132 to 140: empty the main stack into a second one. \<open>drain_stack\<close> works on the
  pair of the locals (whose stack is the main one) and the second stack.
\<close>

function drain_stack :: "locals \<Rightarrow> UnionStack \<Rightarrow> fault + locals \<times> UnionStack" where
  "drain_stack st tempStack =
     (if \<not> isEmptyUnion (stack st) then
        (if fst (pop_locals st) = EXIT_SUCCESS
            \<and> poppedType (snd (pop_locals st)) = Some ELEMENT_TYPE
         then (case push_checked tempStack
                      (elementData (the (poppedData (snd (pop_locals st))))) of
                 Inl f \<Rightarrow> Inl f
               | Inr tempStack' \<Rightarrow> drain_stack (snd (pop_locals st)) tempStack')
         else drain_stack (snd (pop_locals st)) tempStack)
      else Inr (st, tempStack))"
  by pat_completeness auto
termination
proof (relation "measure (\<lambda>(st, tempStack). length (top_s (stack st)))")
  have shorter: "length (top_s (stack (snd (pop_locals st)))) < length (top_s (stack st))"
    if "\<not> isEmptyUnion (stack st)" for st
    using that
    by (auto simp: isEmptyUnion_def pop_locals_def popUnion_def Let_def split: list.splits)
  show "wf (measure (\<lambda>(st, tempStack :: UnionStack). length (top_s (stack st))))" by simp
  show "((snd (pop_locals st), tempStack'), st, tempStack)
         \<in> measure (\<lambda>(st, tempStack). length (top_s (stack st)))"
    if "\<not> isEmptyUnion (stack st)" for st :: locals and tempStack tempStack' :: UnionStack
    using shorter [OF that] by simp
  show "((snd (pop_locals st), tempStack), st, tempStack)
        \<in> measure (\<lambda>(st, tempStack). length (top_s (stack st)))"
    if "\<not> isEmptyUnion (stack st)" for st tempStack
    using shorter [OF that] by simp
qed

declare drain_stack.simps [simp del]

text \<open>
  Lines 142 to 162: empty the second stack into the output buffer, each symbol followed
  by one space. The locals' stack is now the second stack; \<open>expandedFormula\<close> is the
  text written so far (its first \<open>length\<close> bytes). The buffer is grown before it
  overflows (lines 145 to 156); \<open>realloc\<close> is taken to succeed, as \<open>malloc\<close> is.
\<close>

function write_symbols :: "locals \<Rightarrow> string \<Rightarrow> locals \<times> string" where
  "write_symbols st expandedFormula =
     (if \<not> isEmptyUnion (stack st) then
        (if fst (pop_locals st) = EXIT_SUCCESS
            \<and> poppedType (snd (pop_locals st)) = Some ELEMENT_TYPE
         then write_symbols (snd (pop_locals st))
                (expandedFormula
                 @ chemSymbol (elementData (the (poppedData (snd (pop_locals st)))))
                 @ '' '')
         else write_symbols (snd (pop_locals st)) expandedFormula)
      else (st, expandedFormula))"
  by pat_completeness auto
termination
proof (relation "measure (\<lambda>(st, expandedFormula). length (top_s (stack st)))")
  have shorter: "length (top_s (stack (snd (pop_locals st)))) < length (top_s (stack st))"
    if "\<not> isEmptyUnion (stack st)" for st
    using that
    by (auto simp: isEmptyUnion_def pop_locals_def popUnion_def Let_def split: list.splits)
  show "wf (measure (\<lambda>(st, expandedFormula :: string). length (top_s (stack st))))" by simp
  show "((snd (pop_locals st),
          expandedFormula @ chemSymbol (elementData (the (poppedData (snd (pop_locals st)))))
          @ '' ''),
         st, expandedFormula) \<in> measure (\<lambda>(st, expandedFormula). length (top_s (stack st)))"
    if "\<not> isEmptyUnion (stack st)" for st expandedFormula
    using shorter [OF that] by simp
  show "((snd (pop_locals st), expandedFormula), st, expandedFormula)
        \<in> measure (\<lambda>(st, expandedFormula). length (top_s (stack st)))"
    if "\<not> isEmptyUnion (stack st)" for st expandedFormula
    using shorter [OF that] by simp
qed

declare write_symbols.simps [simp del]

text \<open>Lines 164 to 167: drop one trailing space.\<close>

definition discard_last_space :: "string \<Rightarrow> string" where
  "discard_last_space expandedFormula =
     (if length expandedFormula > 0 \<and> last expandedFormula = CHR '' ''
      then butlast expandedFormula else expandedFormula)"

text \<open>
  processFormula: a fault, or the returned string together with what the call wrote to
  the error stream.
\<close>

definition processFormula :: "string \<Rightarrow> fault + string \<times> diagnostic list" where
  "processFormula formula =
     (case processFormula_loop formula
             \<lparr>stack = initUnionStack, poppedData = None, poppedType = None, err = []\<rparr> of
        Inl f \<Rightarrow> Inl f
      | Inr st1 \<Rightarrow>
          (case drain_stack st1 initUnionStack of
             Inl f \<Rightarrow> Inl f
           | Inr (st2, tempStack) \<Rightarrow>
               (case write_symbols (st2\<lparr>stack := tempStack\<rparr>) [] of
                  (st3, expandedFormula) \<Rightarrow>
                    Inr (discard_last_space expandedFormula, err st3))))"

section \<open>Notions used in the statements\<close>

text \<open>
  \<open>live_entries_fit s ops\<close>: while the operations \<open>ops\<close> are applied one after the
  other to the stack \<open>s\<close>, the number of nodes in the list never exceeds the greatest
  \<open>int\<close>.
\<close>

fun live_entries_fit :: "UnionStack \<Rightarrow> stack_op list \<Rightarrow> bool" where
  "live_entries_fit s [] = (length (top_s s) \<le> unat INT_MAX)"
| "live_entries_fit s (x # ops) =
     (length (top_s s) \<le> unat INT_MAX \<and> live_entries_fit (apply_op s x) ops)"

text \<open>
  The shape of an element token (section 3 of the specification): one to three letters.
\<close>

definition is_token :: "string \<Rightarrow> bool" where
  "is_token symbol = (symbol \<noteq> [] \<and> length symbol \<le> 3 \<and> list_all isalpha symbol)"

text \<open>Tokens separated by single spaces.\<close>

fun join_spaces :: "string list \<Rightarrow> string" where
  "join_spaces [] = []"
| "join_spaces [t] = t"
| "join_spaces (t # u # ts) = t @ CHR '' '' # join_spaces (u # ts)"

text \<open>
  \<open>digits_attached a p\<close>: every digit of \<open>p\<close> comes directly after a letter, a
  closing parenthesis or another digit; \<open>a\<close> says whether \<open>p\<close> itself may begin with
  a digit.
\<close>

fun digits_attached :: "bool \<Rightarrow> string \<Rightarrow> bool" where
  "digits_attached a [] = True"
| "digits_attached a (c # cs) =
     (if isdigit c then a \<and> digits_attached True cs
      else digits_attached (isalpha c \<or> c = CHR '')'') cs)"

text \<open>The characters that checkParentheses looks at.\<close>

definition is_paren :: "char \<Rightarrow> bool" where
  "is_paren c = (c = CHR ''('' \<or> c = CHR '')'')"

text \<open>
  A stack that holds exactly the given elements, top first, with its size field in
  step; and the symbols that mark an open group.
\<close>

definition element_node :: "Element \<Rightarrow> StackNode" where
  "element_node e = \<lparr>data = ElementData e, dataType = ELEMENT_TYPE\<rparr>"

definition element_stack :: "Element list \<Rightarrow> UnionStack" where
  "element_stack es = \<lparr>top_s = map element_node es, size_s = of_nat (length es)\<rparr>"

text \<open>
  The locals whose stack holds exactly the given elements, no more of them than an
  \<open>int\<close> counts.
\<close>

definition stack_holds :: "locals \<Rightarrow> Element list \<Rightarrow> bool" where
  "stack_holds st es = (stack st = element_stack es \<and> length es \<le> 2147483647)"

definition is_marker :: "Element \<Rightarrow> bool" where
  "is_marker e = (chemSymbol e = ''('')"

definition open_groups :: "Element list \<Rightarrow> nat" where
  "open_groups es = length (filter is_marker es)"

definition entry_ok :: "Element \<Rightarrow> bool" where
  "entry_ok e = (is_marker e \<or> is_token (chemSymbol e))"

text \<open>
  What a run of digits in the formula may find on top of the stack: an element that is
  not a group marker; an empty stack only when \<open>strict\<close> is off.
\<close>

definition top_ok :: "bool \<Rightarrow> Element list \<Rightarrow> bool" where
  "top_ok strict es = (case es of [] \<Rightarrow> \<not> strict | e # _ \<Rightarrow> \<not> is_marker e)"

definition char_stack :: "nat \<Rightarrow> UnionStack" where
  "char_stack n =
     \<lparr>top_s = replicate n \<lparr>data = CharData (CHR ''(''), dataType = CHAR_TYPE\<rparr>,
      size_s = of_nat n\<rparr>"

section \<open>Facts about 32-bit words\<close>

lemma unat_of_nat_32: "n < 4294967296 \<Longrightarrow> unat (of_nat n :: 32 word) = n"
  by (simp add: unsigned_of_nat take_bit_nat_eq_self)

lemma of_nat_32_eq_0: "n < 4294967296 \<Longrightarrow> ((of_nat n :: 32 word) = 0) = (n = 0)"
  using unat_of_nat_32 [of n] by auto

lemma sint_of_nat_32: "n \<le> 2147483647 \<Longrightarrow> sint (of_nat n :: 32 word) = int n"
  by (simp add: signed_of_nat signed_take_bit_int_eq_self)

lemma unat_INT_MAX: "unat INT_MAX = 2147483647"
  by (simp add: INT_MAX_def)

lemma of_nat_32_eq_INT_MAX:
  "n \<le> 2147483647 \<Longrightarrow> ((of_nat n :: 32 word) = INT_MAX) = (n = 2147483647)"
proof
  assume a: "n \<le> 2147483647" and b: "(of_nat n :: 32 word) = INT_MAX"
  have "unat (of_nat n :: 32 word) = n" using a by (intro unat_of_nat_32) simp
  then show "n = 2147483647" using b by (simp add: unat_INT_MAX)
next
  assume "n = 2147483647"
  then show "(of_nat n :: 32 word) = INT_MAX" by (simp add: INT_MAX_def)
qed

section \<open>Properties of the stack\<close>

lemma apply_op_size:
  assumes "size_s s = of_nat (length (top_s s))" and "length (top_s s) \<le> 2147483647"
  shows "size_s (apply_op s x) = of_nat (length (top_s (apply_op s x)))"
proof (cases x)
  case (PushChar c)
  then show ?thesis using assms by (simp add: pushCharUnion_def)
next
  case (PushElement e)
  then show ?thesis using assms by (simp add: pushElementUnion_def)
next
  case Pop
  show ?thesis
  proof (cases "top_s s")
    case Nil
    then show ?thesis using assms Pop by (simp add: popUnion_def)
  next
    case (Cons t rest)
    then have "length rest < 4294967296" using assms(2) by simp
    then have "((of_nat (length rest) :: 32 word) = 0) = (rest = [])"
      by (simp add: of_nat_32_eq_0)
    then show ?thesis using assms Pop Cons by (simp add: popUnion_def Let_def)
  qed
qed

lemma foldl_apply_op_size:
  "live_entries_fit s ops \<Longrightarrow> size_s s = of_nat (length (top_s s)) \<Longrightarrow>
   size_s (foldl apply_op s ops) = of_nat (length (top_s (foldl apply_op s ops)))
   \<and> length (top_s (foldl apply_op s ops)) \<le> 2147483647"
proof (induction ops arbitrary: s)
  case Nil
  then show ?case by (simp add: unat_INT_MAX)
next
  case (Cons x ops)
  from Cons.prems(1) have fit: "length (top_s s) \<le> 2147483647"
    and rest: "live_entries_fit (apply_op s x) ops"
    by (simp_all add: unat_INT_MAX)
  have "size_s (apply_op s x) = of_nat (length (top_s (apply_op s x)))"
    using Cons.prems(2) fit by (rule apply_op_size)
  with rest show ?case by (simp add: Cons.IH)
qed

lemma foldl_pushes:
  "top_s (foldl apply_op s (replicate n (PushChar c)))
     = replicate n \<lparr>data = CharData c, dataType = CHAR_TYPE\<rparr> @ top_s s
   \<and> size_s (foldl apply_op s (replicate n (PushChar c))) = size_s s + of_nat n"
proof (induction n arbitrary: s)
  case 0
  show ?case by simp
next
  case (Suc n)
  show ?case
    by (simp add: Suc.IH pushCharUnion_def replicate_append_same)
qed

text \<open>
  Claim C9 (as the code has it). Starting from an initialised stack, after any sequence
  of pushCharUnion, pushElementUnion and popUnion during which the number of live
  entries never exceeds the greatest \<open>int\<close>, the size field equals the number of nodes
  in the list; and popUnion on a stack whose list is empty returns EXIT_FAILURE, leaves
  the stack as it was and leaves both output locations as they were (nothing is written
  to them).
\<close>

theorem C9_size_counts_live_entries:
  "live_entries_fit initUnionStack ops \<Longrightarrow>
   sint (size_s (run_ops ops)) = int (length (top_s (run_ops ops)))
   \<and> popUnion (s\<lparr>top_s := []\<rparr>) returnValue returnType errs =
       (EXIT_FAILURE, s\<lparr>top_s := []\<rparr>, returnValue, returnType, errs @ [PopEmptyStack])"
proof -
  assume "live_entries_fit initUnionStack ops"
  then have "size_s (run_ops ops) = of_nat (length (top_s (run_ops ops)))
      \<and> length (top_s (run_ops ops)) \<le> 2147483647"
    unfolding run_ops_def by (rule foldl_apply_op_size) (simp add: initUnionStack_def)
  then have "sint (size_s (run_ops ops)) = int (length (top_s (run_ops ops)))"
    by (simp add: sint_of_nat_32)
  then show ?thesis by (simp add: popUnion_def)
qed

theorem C9_size_counts_live_entries_witness:
  "live_entries_fit initUnionStack
     [PushChar (CHR ''a''), PushElement \<lparr>chemSymbol = ''He'', atomicNumber = 2\<rparr>, Pop]
   \<and> sint (size_s (run_ops
       [PushChar (CHR ''a''), PushElement \<lparr>chemSymbol = ''He'', atomicNumber = 2\<rparr>, Pop]))
     = int (length (top_s (run_ops
       [PushChar (CHR ''a''), PushElement \<lparr>chemSymbol = ''He'', atomicNumber = 2\<rparr>, Pop])))"
proof -
  have fit: "live_entries_fit initUnionStack
     [PushChar (CHR ''a''), PushElement \<lparr>chemSymbol = ''He'', atomicNumber = 2\<rparr>, Pop]"
    by (simp add: initUnionStack_def pushCharUnion_def pushElementUnion_def popUnion_def
        Let_def unat_INT_MAX)
  show ?thesis
    using C9_size_counts_live_entries [OF fit] fit by (intro conjI) simp_all
qed

text \<open>
  Without that bound the size field does not count the entries: after 2147483648 pushes
  the list has 2147483648 nodes, a number that no \<open>int\<close> holds; the field has wrapped
  around to the least \<open>int\<close>.
\<close>

theorem C9_size_overflow_counterexample:
  "length (top_s (run_ops (replicate 2147483648 (PushChar (CHR ''('')))))
     = 2147483648
   \<and> sint (size_s (run_ops (replicate 2147483648 (PushChar (CHR ''(''))))) = - 2147483648"
proof -
  let ?ops = "replicate 2147483648 (PushChar (CHR ''(''))"
  have "length (top_s (foldl apply_op initUnionStack ?ops)) = 2147483648 + length (top_s initUnionStack)"
    by (simp only: foldl_pushes length_append length_replicate)
  moreover have "size_s (foldl apply_op initUnionStack ?ops) = size_s initUnionStack + of_nat 2147483648"
    by (simp only: foldl_pushes)
  moreover have "top_s initUnionStack = []" "size_s initUnionStack = 0"
    by (simp_all add: initUnionStack_def)
  moreover have "sint (0 + of_nat 2147483648 :: 32 word) = - 2147483648"
    by simp
  ultimately show ?thesis
    unfolding run_ops_def by (simp only: list.size add_0_right) 
qed

section \<open>Properties of the validator\<close>

lemma checkParentheses_loop_invalid:
  "checkParentheses_loop p s False = (s, False)"
  by (cases p) simp_all

lemma popUnion_char_stack:
  "n < 4294967296 \<Longrightarrow>
   popUnion (char_stack (Suc n)) v t e =
     (EXIT_SUCCESS, char_stack n, Some (CharData (CHR ''('')), Some CHAR_TYPE, e)"
  by (simp add: popUnion_def char_stack_def Let_def of_nat_32_eq_0)

lemma pushCharUnion_char_stack:
  "pushCharUnion (char_stack n) (CHR ''('') = char_stack (Suc n)"
  by (simp add: pushCharUnion_def char_stack_def)

lemma isEmptyUnion_char_stack: "isEmptyUnion (char_stack n) = (n = 0)"
  by (simp add: isEmptyUnion_def char_stack_def)

lemma checkParentheses_loop_scan:
  "n + length p \<le> 2147483647 \<Longrightarrow>
   (case checkParentheses_loop p (char_stack n) True of (s, valid) \<Rightarrow> valid \<and> isEmptyUnion s)
   = isBalanced_scan p (replicate n (CHR ''(''))"
proof (induction p arbitrary: n)
  case Nil
  show ?case by (simp add: isEmptyUnion_char_stack)
next
  case (Cons c cs)
  show ?case
  proof (cases n)
    case 0
    then show ?thesis
      using Cons.IH [of 0] Cons.IH [of "Suc 0"] Cons.prems
      by (simp add: isEmptyUnion_char_stack pushCharUnion_char_stack
          checkParentheses_loop_invalid)
  next
    case (Suc m)
    then show ?thesis
      using Cons.IH [of m] Cons.IH [of n] Cons.IH [of "Suc n"] Cons.prems
      by (simp add: isEmptyUnion_char_stack pushCharUnion_char_stack
          popUnion_char_stack)
  qed
qed

lemma checkParentheses_scan:
  "length formula \<le> unat INT_MAX \<Longrightarrow> checkParentheses formula = isBalanced_scan formula []"
proof -
  assume "length formula \<le> unat INT_MAX"
  then have len: "0 + length formula \<le> 2147483647"
    by (simp add: unat_INT_MAX)
  have "initUnionStack = char_stack 0"
    by (simp add: initUnionStack_def char_stack_def)
  then show ?thesis
    using checkParentheses_loop_scan [OF len]
    by (auto simp: checkParentheses_def split: prod.splits)
qed

lemma checkParentheses_loop_filter:
  "checkParentheses_loop (filter is_paren p) s valid = checkParentheses_loop p s valid"
proof (induction p arbitrary: s valid)
  case Nil
  show ?case by simp
next
  case (Cons c cs)
  show ?case
  proof (cases "is_paren c")
    case True
    then have f: "filter is_paren (c # cs) = c # filter is_paren cs" by simp
    show ?thesis unfolding f by (simp add: Cons.IH)
  next
    case False
    then have "c \<noteq> CHR ''(''" "c \<noteq> CHR '')''" by (simp_all add: is_paren_def)
    then show ?thesis
      using False by (cases valid) (simp_all add: Cons.IH checkParentheses_loop_invalid)
  qed
qed

lemma checkParentheses_filter: "checkParentheses (filter is_paren f) = checkParentheses f"
  by (simp add: checkParentheses_def checkParentheses_loop_filter)

text \<open>
  Claim C2. checkParentheses computes the scan that the specification describes: push on
  an opening parenthesis; on a closing one the answer is false at once if the stack is
  empty or the popped entry is not an opening parenthesis; after the scan the answer is
  false if the stack is not empty. This holds for every formula of at most \<open>INT_MAX\<close>
  characters, the number of entries that the \<open>int\<close> size of the stack counts (the
  lines that the program reads have fewer than 1024). In particular checkParentheses
  rejects \<open>H2(O\<close> and \<open>)(\<close> and accepts \<open>Ca(OH)2\<close>.
\<close>

theorem C2_checkParentheses_scan:
  "(length formula \<le> unat INT_MAX \<longrightarrow> checkParentheses formula = isBalanced_spec formula)
   \<and> \<not> checkParentheses ''H2(O''
   \<and> checkParentheses ''Ca(OH)2''
   \<and> \<not> checkParentheses '')(''"
  by (simp add: checkParentheses_scan isBalanced_spec_def unat_INT_MAX)

theorem C2_checkParentheses_scan_witness:
  "length ''Ca(OH)2'' \<le> unat INT_MAX
   \<and> checkParentheses ''Ca(OH)2'' = isBalanced_spec ''Ca(OH)2'' \<and> isBalanced_spec ''Ca(OH)2''"
proof -
  have len: "length ''Ca(OH)2'' \<le> unat INT_MAX" by (simp add: unat_INT_MAX)
  show ?thesis
    using C2_checkParentheses_scan [of "''Ca(OH)2''"] len by (simp add: isBalanced_spec_def)
qed

text \<open>
  Claim C10. checkParentheses depends only on the parentheses of its input: two formulas
  with the same subsequence of opening and closing parentheses get the same answer.
\<close>

theorem C10_only_parentheses_matter:
  "filter is_paren f = filter is_paren g \<Longrightarrow> checkParentheses f = checkParentheses g"
  by (metis checkParentheses_filter)

theorem C10_only_parentheses_matter_witness:
  "filter is_paren ''Ca(OH)2'' = filter is_paren ''(x)''
   \<and> checkParentheses ''Ca(OH)2'' = checkParentheses ''(x)''"
  using C10_only_parentheses_matter [of "''Ca(OH)2''" "''(x)''"] by (simp add: is_paren_def)

section \<open>Properties of the proton count\<close>

text \<open>
  Claim C4, at a table of 118 entries none of which is \<open>Xx\<close>: the lookup of the unknown
  symbol returns -1, and that -1 is added to the total of the line, so that the line
  \<open>Xx H\<close> counts 0 protons and not the 1 of its hydrogen.
\<close>

theorem C4_unknown_symbol_adds_minus_one:
  "sint (getAtomicNumber (replicate 118 \<lparr>chemSymbol = ''H'', atomicNumber = 1\<rparr>) MAX_ELEMENTS ''Xx'')
     = - 1
   \<and> sint (countProtons_line ''Xx H'' (replicate 118 \<lparr>chemSymbol = ''H'', atomicNumber = 1\<rparr>))
     = 0"
  by code_simp

text \<open>
  Claim C6. With a periodic table whose first entries are H:1, O:8 and Mg:12 (whatever
  the remaining slots of the array hold), the line \<open>O H O H Mg\<close> counts
  8+1+8+1+12 = 30 protons.
\<close>

theorem C6_proton_count_example:
  "sint (countProtons_line ''O H O H Mg''
     (\<lparr>chemSymbol = ''H'', atomicNumber = 1\<rparr> # \<lparr>chemSymbol = ''O'', atomicNumber = 8\<rparr> # \<lparr>chemSymbol = ''Mg'', atomicNumber = 12\<rparr> # rest)) = 30"
  by (simp add: countProtons_line_def countProtons_symbol_def nth_char_def isupper_def
      islower_def isalpha_def getAtomicNumber_def getAtomicNumber_loop.simps MAX_ELEMENTS_def)

text \<open>
  Claim C8. At every cursor position the symbol rule of countProtons reads the same
  symbol and advances by the same number of characters as the rule of processFormula.
\<close>

theorem C8_same_symbol_rule:
  "chemSymbol (fst (countProtons_symbol (drop i formula)))
     = chemSymbol (fst (processFormula_symbol (drop i formula)))
   \<and> snd (countProtons_symbol (drop i formula)) = snd (processFormula_symbol (drop i formula))"
  by (simp add: countProtons_symbol_def processFormula_symbol_def)

section \<open>Properties of the expansion\<close>

text \<open>
  The characters, and what the two digit loops and the symbol rule leave of the cursor.
\<close>

lemma isalpha_other:
  "isalpha c \<Longrightarrow> \<not> isdigit c \<and> c \<noteq> CHR ''('' \<and> c \<noteq> CHR '')'' \<and> c \<noteq> CHR '' ''"
  by (auto simp: isalpha_def isupper_def islower_def isdigit_def)

lemma isdigit_other: "isdigit c \<Longrightarrow> c \<noteq> CHR ''('' \<and> c \<noteq> CHR '')''"
  by (auto simp: isdigit_def)

lemma islower_isalpha: "islower c \<Longrightarrow> isalpha c"
  by (simp add: isalpha_def)

lemma islower_nth_char: "islower (nth_char p k) \<Longrightarrow> k < length p"
  by (auto simp: nth_char_def islower_def split: if_splits)

lemma snd_read_multiplier: "snd (read_multiplier m p) = dropWhile isdigit p"
  by (induction p arbitrary: m) simp_all

lemma snd_read_group_multiplier: "snd (read_group_multiplier p) = dropWhile isdigit p"
  by (cases p) (simp_all add: read_group_multiplier_def snd_read_multiplier nth_char_def)

lemma isBalanced_scan_dropWhile:
  "isBalanced_scan (dropWhile isdigit p) st = isBalanced_scan p st"
  by (induction p) (auto dest: isdigit_other)

lemma isBalanced_scan_drop_letters:
  "list_all isalpha (take k cs) \<Longrightarrow> isBalanced_scan (drop k cs) st = isBalanced_scan cs st"
proof (induction cs arbitrary: k)
  case Nil
  show ?case by simp
next
  case (Cons c cs)
  then show ?case by (cases k) (auto dest: isalpha_other)
qed

lemma digits_attached_nondigit:
  "\<not> isdigit c \<Longrightarrow> digits_attached a (c # cs) = digits_attached b (c # cs)"
  by simp

lemma digits_attached_mono: "digits_attached a p \<Longrightarrow> digits_attached True p"
  by (cases p) (auto split: if_splits)

lemma digits_attached_False: "digits_attached False p \<Longrightarrow> p = [] \<or> \<not> isdigit (hd p)"
  by (cases p) (auto split: if_splits)

lemma digits_attached_dropWhile:
  "digits_attached a p \<Longrightarrow> digits_attached True (dropWhile isdigit p)"
  by (induction p arbitrary: a) (auto split: if_splits)

lemma digits_attached_drop_letters:
  "list_all isalpha (take k cs) \<Longrightarrow> digits_attached True cs \<Longrightarrow> digits_attached True (drop k cs)"
proof (induction cs arbitrary: k)
  case Nil
  show ?case by simp
next
  case (Cons c cs)
  then show ?case by (cases k) (auto dest: isalpha_other split: if_splits)
qed

lemma dropWhile_no_digit:
  "dropWhile isdigit p = [] \<or> \<not> isdigit (hd (dropWhile isdigit p))"
  by (metis hd_dropWhile)

lemma processFormula_symbol_token:
  assumes "isalpha c"
  shows "is_token (chemSymbol (fst (processFormula_symbol (c # cs))))"
    and "list_all isalpha (take (snd (processFormula_symbol (c # cs))) cs)"
proof -
  have n1: "islower (nth_char (c # cs) 1) \<Longrightarrow> cs \<noteq> [] \<and> nth_char (c # cs) 1 = hd cs"
    by (cases cs) (auto simp: nth_char_def islower_def)
  have n2: "islower (nth_char (c # cs) 1) \<Longrightarrow> islower (nth_char (c # cs) 2) \<Longrightarrow>
      take 2 cs = [nth_char (c # cs) 1, nth_char (c # cs) 2]"
    by (cases cs; cases "tl cs") (auto simp: nth_char_def islower_def)
  show "is_token (chemSymbol (fst (processFormula_symbol (c # cs))))"
    using assms
    by (auto simp: processFormula_symbol_def is_token_def nth_char_def islower_isalpha
        split: if_splits)
  show "list_all isalpha (take (snd (processFormula_symbol (c # cs))) cs)"
    using n1 n2
    by (cases cs) (auto simp: processFormula_symbol_def islower_isalpha)
qed

lemma token_not_marker: "is_token (chemSymbol e) \<Longrightarrow> \<not> is_marker e"
  by (auto simp: is_token_def is_marker_def dest: isalpha_other)

lemma open_groups_Cons:
  "open_groups (e # es) = (if is_marker e then Suc (open_groups es) else open_groups es)"
  by (simp add: open_groups_def)

lemma open_groups_append: "open_groups (xs @ ys) = open_groups xs + open_groups ys"
  by (simp add: open_groups_def)

lemma open_groups_none: "list_all (\<lambda>e. \<not> is_marker e) xs \<Longrightarrow> open_groups xs = 0"
  by (simp add: open_groups_def list_all_iff)

lemma open_groups_zero:
  "open_groups es = 0 \<Longrightarrow> list_all entry_ok es \<Longrightarrow> list_all (\<lambda>e. is_token (chemSymbol e)) es"
  by (auto simp: open_groups_def list_all_iff entry_ok_def filter_empty_conv)

lemma first_marker:
  "0 < open_groups es \<Longrightarrow>
   \<exists>pre mk post. es = pre @ mk # post \<and> list_all (\<lambda>e. \<not> is_marker e) pre \<and> is_marker mk"
proof (induction es)
  case Nil
  then show ?case by (simp add: open_groups_def)
next
  case (Cons e es)
  show ?case
  proof (cases "is_marker e")
    case True
    then have "e # es = [] @ e # es \<and> list_all (\<lambda>e. \<not> is_marker e) [] \<and> is_marker e"
      by simp
    then show ?thesis by (intro exI)
  next
    case False
    with Cons.prems have "0 < open_groups es"
      by (simp add: open_groups_Cons)
    then obtain pre mk post where "es = pre @ mk # post"
      "list_all (\<lambda>e. \<not> is_marker e) pre" "is_marker mk"
      using Cons.IH by blast
    then have "e # es = (e # pre) @ mk # post \<and> list_all (\<lambda>e. \<not> is_marker e) (e # pre)
        \<and> is_marker mk"
      using False by simp
    then show ?thesis by (intro exI)
  qed
qed

lemma entry_ok_replicate:
  "list_all entry_ok (e # es) \<Longrightarrow> list_all entry_ok (replicate n e @ es)"
  by (induction n) simp_all

lemma concat_join_spaces:
  "ts \<noteq> [] \<Longrightarrow> concat (map (\<lambda>t. t @ '' '') ts) = join_spaces ts @ '' ''"
  by (induction ts rule: join_spaces.induct) simp_all

lemma discard_last_space_concat:
  "discard_last_space (concat (map (\<lambda>t. t @ '' '') ts)) = join_spaces ts"
proof (cases "ts = []")
  case True
  then show ?thesis by (simp add: discard_last_space_def)
next
  case False
  then show ?thesis by (simp add: concat_join_spaces discard_last_space_def)
qed

lemma alpha_or_space:
  "isalpha c \<or> c = CHR '' '' \<Longrightarrow> c \<noteq> CHR ''('' \<and> \<not> isdigit c"
  by (auto simp: isalpha_def isupper_def islower_def isdigit_def)

lemma join_spaces_chars:
  "list_all is_token ts \<Longrightarrow> list_all (\<lambda>c. isalpha c \<or> c = CHR '' '') (join_spaces ts)"
  by (induction ts rule: join_spaces.induct) (auto simp: is_token_def list_all_iff)

lemma join_spaces_last:
  "list_all is_token ts \<Longrightarrow> ts \<noteq> [] \<Longrightarrow> isalpha (last (join_spaces ts))"
proof (induction ts rule: join_spaces.induct)
  case 1
  then show ?case by simp
next
  case (2 t)
  then show ?case by (auto simp: is_token_def list_all_iff)
next
  case (3 t u ts)
  then have "join_spaces (u # ts) \<noteq> []"
    by (cases ts) (auto simp: is_token_def)
  with 3 show ?case by simp
qed

lemma join_spaces_empty: "list_all is_token ts \<Longrightarrow> (join_spaces ts = []) = (ts = [])"
  by (induction ts rule: join_spaces.induct) (auto simp: is_token_def)

text \<open>The stack operations of processFormula on a stack that holds a list of elements.\<close>

lemma pop_locals_element:
  "stack_holds st (e # es) \<Longrightarrow>
   pop_locals st = (EXIT_SUCCESS,
     \<lparr>stack = element_stack es, poppedData = Some (ElementData e),
      poppedType = Some ELEMENT_TYPE, err = err st\<rparr>)"
proof -
  assume h: "stack_holds st (e # es)"
  then have "length es < 4294967296" by (simp add: stack_holds_def)
  then have "((of_nat (length es) :: 32 word) = 0) = (es = [])"
    by (simp add: of_nat_32_eq_0)
  then show ?thesis
    using h
    by (simp add: stack_holds_def pop_locals_def popUnion_def element_stack_def
        element_node_def Let_def)
qed

lemma pop_locals_empty:
  "stack_holds st [] \<Longrightarrow>
   pop_locals st = (EXIT_FAILURE,
     \<lparr>stack = element_stack [], poppedData = poppedData st,
      poppedType = poppedType st, err = err st @ [PopEmptyStack]\<rparr>)"
  by (simp add: stack_holds_def pop_locals_def popUnion_def element_stack_def)

lemma stack_holds_popped:
  "stack_holds st (e # es) \<Longrightarrow>
   stack_holds \<lparr>stack = element_stack es, poppedData = v, poppedType = t, err = x\<rparr> es"
  by (simp add: stack_holds_def)

lemma push_checked_element:
  "length es \<le> 2147483647 \<Longrightarrow>
   push_checked (element_stack es) e =
     (if length es = 2147483647 then Inl SizeOverflow else Inr (element_stack (e # es)))"
proof -
  assume a: "length es \<le> 2147483647"
  have "(size_s (element_stack es) = INT_MAX) = (length es = 2147483647)"
    using a by (simp add: element_stack_def of_nat_32_eq_INT_MAX)
  moreover have "pushElementUnion (element_stack es) e = element_stack (e # es)"
    by (simp add: pushElementUnion_def element_stack_def element_node_def)
  ultimately show ?thesis by (simp add: push_checked_def)
qed

lemma push_locals_Inr:
  "push_locals e st = Inr st' \<Longrightarrow> stack_holds st es \<Longrightarrow>
   stack_holds st' (e # es) \<and> err st' = err st"
  by (auto simp: push_locals_def stack_holds_def push_checked_element split: if_splits)

lemma push_times_Inr:
  "push_times n e st = Inr st' \<Longrightarrow> stack_holds st es \<Longrightarrow>
   stack_holds st' (replicate n e @ es) \<and> err st' = err st"
proof (induction n arbitrary: st es)
  case 0
  then show ?case by simp
next
  case (Suc n)
  from Suc.prems(1) obtain st1 where p: "push_locals e st = Inr st1"
    and r: "push_times n e st1 = Inr st'"
    by (auto split: sum.splits)
  have h: "stack_holds st1 (e # es)" and e1: "err st1 = err st"
    using push_locals_Inr [OF p Suc.prems(2)] by simp_all
  have "stack_holds st' (replicate n e @ e # es) \<and> err st' = err st1"
    using r h by (rule Suc.IH)
  then show ?case by (simp add: e1 replicate_app_Cons_same)
qed

lemma push_all_Inr:
  "push_all xs st = Inr st' \<Longrightarrow> stack_holds st es \<Longrightarrow>
   stack_holds st' (rev xs @ es) \<and> err st' = err st"
proof (induction xs arbitrary: st es)
  case Nil
  then show ?case by simp
next
  case (Cons x xs)
  from Cons.prems(1) obtain st1 where p: "push_locals x st = Inr st1"
    and r: "push_all xs st1 = Inr st'"
    by (auto split: sum.splits)
  have h: "stack_holds st1 (x # es)" and e1: "err st1 = err st"
    using push_locals_Inr [OF p Cons.prems(2)] by simp_all
  have "stack_holds st' (rev xs @ x # es) \<and> err st' = err st1"
    using r h by (rule Cons.IH)
  then show ?case by (simp add: e1)
qed

lemma push_group_times_Inr:
  "push_group_times n temp st = Inr st' \<Longrightarrow> stack_holds st es \<Longrightarrow>
   \<exists>xs. stack_holds st' (xs @ es) \<and> set xs \<subseteq> set temp \<and> err st' = err st"
proof (induction n arbitrary: st es)
  case 0
  then have "stack_holds st' ([] @ es) \<and> set [] \<subseteq> set temp \<and> err st' = err st"
    by simp
  then show ?case by (rule exI)
next
  case (Suc n)
  from Suc.prems(1) obtain st1 where p: "push_all (rev temp) st = Inr st1"
    and r: "push_group_times n temp st1 = Inr st'"
    by (auto split: sum.splits)
  have h: "stack_holds st1 (temp @ es)" and e1: "err st1 = err st"
    using push_all_Inr [OF p Suc.prems(2)] by simp_all
  obtain xs where xs: "stack_holds st' (xs @ temp @ es)" "set xs \<subseteq> set temp"
    "err st' = err st1"
    using Suc.IH [OF r h] by blast
  then have "stack_holds st' ((xs @ temp) @ es) \<and> set (xs @ temp) \<subseteq> set temp
      \<and> err st' = err st"
    by (simp add: e1)
  then show ?case by (rule exI)
qed

lemma apply_multiplier_element:
  "apply_multiplier m st = Inr st' \<Longrightarrow> stack_holds st (e # es) \<Longrightarrow>
   stack_holds st' (replicate (loop_count m) e @ es) \<and> err st' = err st"
proof -
  assume a: "apply_multiplier m st = Inr st'" and h: "stack_holds st (e # es)"
  let ?st = "\<lparr>stack = element_stack es, poppedData = Some (ElementData e),
      poppedType = Some ELEMENT_TYPE, err = err st\<rparr>"
  have "push_times (loop_count m) e ?st = Inr st'"
    using a by (simp add: apply_multiplier_def pop_locals_element [OF h])
  moreover have "stack_holds ?st es"
    using h by (rule stack_holds_popped)
  ultimately have "stack_holds st' (replicate (loop_count m) e @ es) \<and> err st' = err ?st"
    by (rule push_times_Inr)
  then show ?thesis by simp
qed

lemma apply_multiplier_empty:
  "apply_multiplier m st = Inr st' \<Longrightarrow> stack_holds st [] \<Longrightarrow> stack_holds st' []"
  by (auto simp: apply_multiplier_def pop_locals_empty stack_holds_def)

lemma pop_group_found:
  "pop_group st temp = Inr r \<Longrightarrow> stack_holds st (pre @ mk # post) \<Longrightarrow>
   list_all (\<lambda>e. \<not> is_marker e) pre \<Longrightarrow> is_marker mk \<Longrightarrow>
   stack_holds (fst r) post \<and> err (fst r) = err st \<and> snd r = temp @ pre"
proof (induction pre arbitrary: st temp)
  case Nil
  let ?st = "\<lparr>stack = element_stack post, poppedData = Some (ElementData mk),
      poppedType = Some ELEMENT_TYPE, err = err st\<rparr>"
  have h: "stack_holds st (mk # post)" using Nil.prems(2) by simp
  have "pop_group st temp = Inr (?st, temp)"
    using Nil.prems(4)
    by (subst pop_group.simps) (simp add: pop_locals_element [OF h] is_marker_def)
  with Nil.prems(1) have "r = (?st, temp)" by simp
  then show ?case
    using stack_holds_popped [OF h] by simp
next
  case (Cons e pre)
  let ?st = "\<lparr>stack = element_stack (pre @ mk # post), poppedData = Some (ElementData e),
      poppedType = Some ELEMENT_TYPE, err = err st\<rparr>"
  have h: "stack_holds st (e # pre @ mk # post)" using Cons.prems(2) by simp
  have ne: "\<not> is_marker e" and pre: "list_all (\<lambda>e. \<not> is_marker e) pre"
    using Cons.prems(3) by simp_all
  have step: "pop_group st temp =
      (if length temp < MAX_FORMULA_LENGTH then pop_group ?st (temp @ [e])
       else Inl TempArrayOverflow)"
    using ne by (subst pop_group.simps) (simp add: pop_locals_element [OF h] is_marker_def)
  with Cons.prems(1) have r: "pop_group ?st (temp @ [e]) = Inr r"
    by (simp split: if_splits)
  have "stack_holds (fst r) post \<and> err (fst r) = err ?st \<and> snd r = (temp @ [e]) @ pre"
    using r stack_holds_popped [OF h] pre Cons.prems(4) by (rule Cons.IH)
  then show ?case by simp
qed

lemma close_group_found:
  assumes "close_group g st = Inr st'" and "stack_holds st (pre @ mk # post)"
    and "list_all (\<lambda>e. \<not> is_marker e) pre" and "is_marker mk"
  shows "\<exists>xs. stack_holds st' (xs @ post) \<and> set xs \<subseteq> set pre \<and> err st' = err st"
proof -
  from assms(1) obtain r where p: "pop_group st [] = Inr r"
    and g: "push_group g (snd r) (fst r) = Inr st'"
    by (auto simp: close_group_def split: sum.splits)
  have r: "stack_holds (fst r) post" "err (fst r) = err st" "snd r = pre"
    using pop_group_found [OF p assms(2,3,4)] by simp_all
  have "push_group_times (loop_count g) pre (fst r) = Inr st'"
    using g by (simp add: push_group_def r(3))
  then show ?thesis
    using push_group_times_Inr [of "loop_count g" pre "fst r" st' post] r(1,2) by simp
qed

text \<open>The scanning loop on a formula with balanced parentheses and attached digits.\<close>

lemma loop_result_step:
  "\<exists>es'. H es' \<and> T es' \<and> (strict \<longrightarrow> e2 = e1) \<Longrightarrow> strict \<longrightarrow> e1 = e0 \<Longrightarrow>
   \<exists>es'. H es' \<and> T es' \<and> (strict \<longrightarrow> e2 = e0)"
  by auto

lemma processFormula_loop_invariant:
  "processFormula_loop p st = Inr st' \<Longrightarrow>
   stack_holds st es \<Longrightarrow> list_all entry_ok es \<Longrightarrow>
   isBalanced_scan p (replicate (open_groups es) (CHR ''('')) \<Longrightarrow>
   digits_attached True p \<Longrightarrow>
   p = [] \<or> \<not> isdigit (hd p) \<or> top_ok strict es \<Longrightarrow>
   \<exists>es'. stack_holds st' es'
       \<and> list_all (\<lambda>e. is_token (chemSymbol e)) es'
       \<and> (strict \<longrightarrow> err st' = err st)"
proof (induction p st arbitrary: es rule: processFormula_loop.induct)
  case (1 st)
  from "1.prems"(1) have same: "st' = st" by (simp add: processFormula_loop.simps)
  from "1.prems"(4) have "open_groups es = 0" by simp
  then have "list_all (\<lambda>e. is_token (chemSymbol e)) es"
    using "1.prems"(3) by (rule open_groups_zero)
  then have "stack_holds st' es \<and> list_all (\<lambda>e. is_token (chemSymbol e)) es
      \<and> (strict \<longrightarrow> err st' = err st)"
    using "1.prems"(2) same by simp
  then show ?case by (rule exI)
next
  case (2 c cs st)
  note run = "2.prems"(1) and stk = "2.prems"(2) and ok = "2.prems"(3)
    and bal = "2.prems"(4) and dig = "2.prems"(5) and tp = "2.prems"(6)
  consider (letter) "isalpha c"
    | (digit) "\<not> isalpha c" "isdigit c"
    | (lparen) "\<not> isalpha c" "\<not> isdigit c" "c = CHR ''(''"
    | (rparen) "\<not> isalpha c" "\<not> isdigit c" "c \<noteq> CHR ''(''" "c = CHR '')''"
    | (other) "\<not> isalpha c" "\<not> isdigit c" "c \<noteq> CHR ''(''" "c \<noteq> CHR '')''"
    by blast
  then show ?case
  proof cases
    case letter
    let ?e = "fst (processFormula_symbol (c # cs))"
    let ?k = "snd (processFormula_symbol (c # cs))"
    have "(case push_locals ?e st of Inl f \<Rightarrow> Inl f
        | Inr st1 \<Rightarrow> processFormula_loop (drop ?k cs) st1) = Inr st'"
      using run letter
      by (subst (asm) processFormula_loop.simps) (simp only: if_True if_False simp_thms)
    then obtain st1 where op: "push_locals ?e st = Inr st1"
      and rest: "processFormula_loop (drop ?k cs) st1 = Inr st'"
      by (cases "push_locals ?e st") simp_all
    have tok: "is_token (chemSymbol ?e)" and skipped: "list_all isalpha (take ?k cs)"
      using processFormula_symbol_token [OF letter] by auto
    have nm: "\<not> is_marker ?e" using tok by (rule token_not_marker)
    have a: "stack_holds st1 (?e # es)" and er: "err st1 = err st"
      using push_locals_Inr [OF op stk] by simp_all
    have "entry_ok ?e" using tok by (simp add: entry_ok_def)
    then have b: "list_all entry_ok (?e # es)"
      using ok by simp
    have nd: "\<not> isdigit c" "c \<noteq> CHR ''(''" "c \<noteq> CHR '')''"
      using isalpha_other [OF letter] by auto
    have "isBalanced_scan cs (replicate (open_groups es) (CHR ''(''))"
      using bal nd by simp
    then have c: "isBalanced_scan (drop ?k cs) (replicate (open_groups (?e # es)) (CHR ''(''))"
      using skipped nm by (simp add: isBalanced_scan_drop_letters open_groups_Cons)
    have "digits_attached True cs"
      using dig nd letter by simp
    then have d: "digits_attached True (drop ?k cs)"
      using skipped by (simp add: digits_attached_drop_letters)
    have e: "drop ?k cs = [] \<or> \<not> isdigit (hd (drop ?k cs)) \<or> top_ok strict (?e # es)"
      using nm by (simp add: top_ok_def)
    have ih: "\<exists>es'. stack_holds st' es'
        \<and> list_all (\<lambda>e. is_token (chemSymbol e)) es'
        \<and> (strict \<longrightarrow> err st' = err st1)"
      by (rule "2.IH"(1) [OF letter op rest a b c d e])
    have per: "strict \<longrightarrow> err st1 = err st" by (simp add: er)
    show ?thesis by (rule loop_result_step [OF ih per])
  next
    case digit
    let ?m = "fst (read_multiplier 0 (c # cs))"
    let ?rest = "snd (read_multiplier 0 (c # cs))"
    have "(case apply_multiplier ?m st of Inl f \<Rightarrow> Inl f
        | Inr st1 \<Rightarrow> processFormula_loop ?rest st1) = Inr st'"
      using run digit
      by (subst (asm) processFormula_loop.simps) (simp only: if_True if_False simp_thms)
    then obtain st1 where op: "apply_multiplier ?m st = Inr st1"
      and rest': "processFormula_loop ?rest st1 = Inr st'"
      by (cases "apply_multiplier ?m st") simp_all
    have rest: "?rest = dropWhile isdigit (c # cs)"
      by (rule snd_read_multiplier)
    have tk: "top_ok strict es" using tp digit by simp
    have "\<exists>es1. stack_holds st1 es1 \<and> list_all entry_ok es1
        \<and> open_groups es1 = open_groups es \<and> (strict \<longrightarrow> err st1 = err st)"
    proof (cases es)
      case Nil
      then have "stack_holds st1 []"
        using apply_multiplier_empty [OF op] stk by simp
      moreover have "\<not> strict" using tk Nil by (simp add: top_ok_def)
      ultimately have "stack_holds st1 [] \<and> list_all entry_ok []
          \<and> open_groups [] = open_groups es \<and> (strict \<longrightarrow> err st1 = err st)"
        using Nil by simp
      then show ?thesis by (rule exI)
    next
      case (Cons e es2)
      then have nm: "\<not> is_marker e" using tk by (simp add: top_ok_def)
      have h: "stack_holds st (e # es2)" using stk Cons by simp
      have "stack_holds st1 (replicate (loop_count ?m) e @ es2)" and "err st1 = err st"
        using apply_multiplier_element [OF op h] by simp_all
      moreover have "list_all entry_ok (replicate (loop_count ?m) e @ es2)"
        using ok unfolding Cons by (rule entry_ok_replicate)
      moreover have "open_groups (replicate (loop_count ?m) e @ es2) = open_groups es"
        using Cons nm by (simp add: open_groups_def)
      ultimately have "stack_holds st1 (replicate (loop_count ?m) e @ es2)
          \<and> list_all entry_ok (replicate (loop_count ?m) e @ es2)
          \<and> open_groups (replicate (loop_count ?m) e @ es2) = open_groups es
          \<and> (strict \<longrightarrow> err st1 = err st)"
        by simp
      then show ?thesis by (rule exI)
    qed
    then obtain es1 where a: "stack_holds st1 es1" and b: "list_all entry_ok es1"
      and og: "open_groups es1 = open_groups es" and er: "strict \<longrightarrow> err st1 = err st"
      by blast
    have c: "isBalanced_scan ?rest (replicate (open_groups es1) (CHR ''(''))"
      using bal by (simp only: rest og isBalanced_scan_dropWhile)
    have d: "digits_attached True ?rest"
      using dig by (simp only: rest digits_attached_dropWhile)
    have e: "?rest = [] \<or> \<not> isdigit (hd ?rest) \<or> top_ok strict es1"
      using dropWhile_no_digit [of "c # cs"] by (simp only: rest) blast
    have ih: "\<exists>es'. stack_holds st' es'
        \<and> list_all (\<lambda>e. is_token (chemSymbol e)) es'
        \<and> (strict \<longrightarrow> err st' = err st1)"
      by (rule "2.IH"(2) [OF digit op rest' a b c d e])
    show ?thesis by (rule loop_result_step [OF ih er])
  next
    case lparen
    let ?e = "\<lparr>chemSymbol = ''('', atomicNumber = 0\<rparr>"
    have "(case push_locals ?e st of Inl f \<Rightarrow> Inl f
        | Inr st1 \<Rightarrow> processFormula_loop cs st1) = Inr st'"
      using run lparen
      by (subst (asm) processFormula_loop.simps) (simp only: if_True if_False simp_thms)
    then obtain st1 where op: "push_locals ?e st = Inr st1"
      and rest: "processFormula_loop cs st1 = Inr st'"
      by (cases "push_locals ?e st") simp_all
    have mk: "is_marker ?e" by (simp add: is_marker_def)
    have a: "stack_holds st1 (?e # es)" and er: "err st1 = err st"
      using push_locals_Inr [OF op stk] by simp_all
    have "entry_ok ?e" using mk by (simp add: entry_ok_def)
    then have b: "list_all entry_ok (?e # es)"
      using ok by simp
    have c: "isBalanced_scan cs (replicate (open_groups (?e # es)) (CHR ''(''))"
      using bal lparen mk by (simp add: open_groups_Cons)
    have df: "digits_attached False cs"
      using dig lparen by simp
    then have d: "digits_attached True cs" by (rule digits_attached_mono)
    have e: "cs = [] \<or> \<not> isdigit (hd cs) \<or> top_ok strict (?e # es)"
      using digits_attached_False [OF df] by blast
    have ih: "\<exists>es'. stack_holds st' es'
        \<and> list_all (\<lambda>e. is_token (chemSymbol e)) es'
        \<and> (strict \<longrightarrow> err st' = err st1)"
      by (rule "2.IH"(3) [OF lparen op rest a b c d e])
    have per: "strict \<longrightarrow> err st1 = err st" by (simp add: er)
    show ?thesis by (rule loop_result_step [OF ih per])
  next
    case rparen
    let ?g = "fst (read_group_multiplier cs)"
    let ?rest = "snd (read_group_multiplier cs)"
    have "(case close_group ?g st of Inl f \<Rightarrow> Inl f
        | Inr st1 \<Rightarrow> processFormula_loop ?rest st1) = Inr st'"
      using run rparen
      by (subst (asm) processFormula_loop.simps) (simp only: if_True if_False simp_thms)
    then obtain st1 where op: "close_group ?g st = Inr st1"
      and rest': "processFormula_loop ?rest st1 = Inr st'"
      by (cases "close_group ?g st") simp_all
    have rest: "?rest = dropWhile isdigit cs"
      by (rule snd_read_group_multiplier)
    from bal rparen obtain n where n: "open_groups es = Suc n"
      and bal': "isBalanced_scan cs (replicate n (CHR ''(''))"
      by (cases "open_groups es") (auto split: if_splits)
    then obtain pre mk post where es: "es = pre @ mk # post"
      and pre: "list_all (\<lambda>e. \<not> is_marker e) pre" and mk: "is_marker mk"
      using first_marker [of es] by auto
    have h: "stack_holds st (pre @ mk # post)" using stk es by simp
    obtain xs where a: "stack_holds st1 (xs @ post)" and sub: "set xs \<subseteq> set pre"
      and er: "err st1 = err st"
      using close_group_found [OF op h pre mk] by blast
    have okp: "list_all entry_ok pre" "list_all entry_ok post"
      using ok es by auto
    have xsok: "list_all entry_ok xs" and xsnm: "list_all (\<lambda>e. \<not> is_marker e) xs"
      using okp(1) pre sub by (auto simp: list_all_iff)
    have b: "list_all entry_ok (xs @ post)"
      using xsok okp(2) by simp
    have "open_groups post = n"
      using n es pre mk by (simp add: open_groups_append open_groups_none open_groups_Cons)
    then have og: "open_groups (xs @ post) = n"
      using xsnm by (simp add: open_groups_append open_groups_none)
    have c: "isBalanced_scan ?rest (replicate (open_groups (xs @ post)) (CHR ''(''))"
      using bal' by (simp only: rest og isBalanced_scan_dropWhile)
    have "digits_attached True cs"
      using dig rparen by simp
    then have d: "digits_attached True ?rest"
      by (simp only: rest digits_attached_dropWhile)
    have e: "?rest = [] \<or> \<not> isdigit (hd ?rest) \<or> top_ok strict (xs @ post)"
      using dropWhile_no_digit [of cs] by (simp only: rest) blast
    have ih: "\<exists>es'. stack_holds st' es'
        \<and> list_all (\<lambda>e. is_token (chemSymbol e)) es'
        \<and> (strict \<longrightarrow> err st' = err st1)"
      by (rule "2.IH"(4) [OF rparen op rest' a b c d e])
    have per: "strict \<longrightarrow> err st1 = err st" by (simp add: er)
    show ?thesis by (rule loop_result_step [OF ih per])
  next
    case other
    have rest: "processFormula_loop cs st = Inr st'"
      using run other
      by (subst (asm) processFormula_loop.simps) (simp only: if_True if_False simp_thms)
    have c: "isBalanced_scan cs (replicate (open_groups es) (CHR ''(''))"
      using bal other by simp
    have df: "digits_attached False cs"
      using dig other by simp
    then have d: "digits_attached True cs" by (rule digits_attached_mono)
    have e: "cs = [] \<or> \<not> isdigit (hd cs) \<or> top_ok strict es"
      using digits_attached_False [OF df] by blast
    show ?thesis
      by (rule "2.IH"(5) [OF other rest stk ok c d e])
  qed
qed

text \<open>The two loops after the scan, and the result of processFormula.\<close>

lemma isEmptyUnion_element: "isEmptyUnion (element_stack es) = (es = [])"
  by (simp add: isEmptyUnion_def element_stack_def)

lemma drain_stack_element:
  "drain_stack st (element_stack ts) = Inr r \<Longrightarrow> stack_holds st es \<Longrightarrow>
   length es + length ts \<le> 2147483647 \<Longrightarrow>
   snd r = element_stack (rev es @ ts) \<and> err (fst r) = err st"
proof (induction es arbitrary: st ts)
  case Nil
  have "drain_stack st (element_stack ts) = Inr (st, element_stack ts)"
    using Nil.prems(2)
    by (subst drain_stack.simps) (simp add: stack_holds_def isEmptyUnion_element)
  with Nil.prems(1) have "r = (st, element_stack ts)" by simp
  then show ?case by simp
next
  case (Cons e es)
  let ?st = "\<lparr>stack = element_stack es, poppedData = Some (ElementData e),
      poppedType = Some ELEMENT_TYPE, err = err st\<rparr>"
  have ne: "\<not> isEmptyUnion (stack st)"
    using Cons.prems(2) by (simp add: stack_holds_def isEmptyUnion_element)
  have push: "push_checked (element_stack ts) e = Inr (element_stack (e # ts))"
    using Cons.prems(3) by (simp add: push_checked_element)
  have "drain_stack st (element_stack ts) = drain_stack ?st (element_stack (e # ts))"
    using ne
    by (subst drain_stack.simps) (simp add: pop_locals_element [OF Cons.prems(2)] push)
  with Cons.prems(1) have r: "drain_stack ?st (element_stack (e # ts)) = Inr r" by simp
  have len: "length es + length (e # ts) \<le> 2147483647"
    using Cons.prems(3) by simp
  have "snd r = element_stack (rev es @ e # ts) \<and> err (fst r) = err ?st"
    using r stack_holds_popped [OF Cons.prems(2)] len by (rule Cons.IH)
  then show ?case by simp
qed

lemma write_symbols_element:
  "stack_holds st es \<Longrightarrow>
   snd (write_symbols st out) = out @ concat (map (\<lambda>e. chemSymbol e @ '' '') es)
   \<and> err (fst (write_symbols st out)) = err st"
proof (induction es arbitrary: st out)
  case Nil
  then show ?case
    by (subst (1 2) write_symbols.simps) (simp add: stack_holds_def isEmptyUnion_element)
next
  case (Cons e es)
  let ?st = "\<lparr>stack = element_stack es, poppedData = Some (ElementData e),
      poppedType = Some ELEMENT_TYPE, err = err st\<rparr>"
  have ne: "\<not> isEmptyUnion (stack st)"
    using Cons.prems by (simp add: stack_holds_def isEmptyUnion_element)
  have step: "write_symbols st out = write_symbols ?st (out @ chemSymbol e @ '' '')"
    using ne
    by (subst write_symbols.simps) (simp add: pop_locals_element [OF Cons.prems])
  have "snd (write_symbols ?st (out @ chemSymbol e @ '' ''))
      = (out @ chemSymbol e @ '' '') @ concat (map (\<lambda>e. chemSymbol e @ '' '') es)
   \<and> err (fst (write_symbols ?st (out @ chemSymbol e @ '' ''))) = err ?st"
    using stack_holds_popped [OF Cons.prems] by (rule Cons.IH)
  then show ?case by (simp add: step)
qed

lemma processFormula_result:
  assumes run: "processFormula formula = Inr (text, errs)"
    and scan: "processFormula_loop formula
      \<lparr>stack = initUnionStack, poppedData = None, poppedType = None, err = []\<rparr> = Inr st1"
    and holds: "stack_holds st1 es"
  shows "text = join_spaces (map chemSymbol (rev es)) \<and> errs = err st1"
proof -
  have init: "initUnionStack = element_stack []"
    by (simp add: initUnionStack_def element_stack_def)
  from run scan obtain r where d: "drain_stack st1 (element_stack []) = Inr r"
    and w: "(case write_symbols ((fst r)\<lparr>stack := snd r\<rparr>) [] of
        (st3, expandedFormula) \<Rightarrow> Inr (discard_last_space expandedFormula, err st3))
      = (Inr (text, errs) :: fault + string \<times> diagnostic list)"
    by (auto simp: processFormula_def init split: sum.splits)
  have len: "length es + length ([] :: Element list) \<le> 2147483647"
    using holds by (simp add: stack_holds_def)
  have dr: "snd r = element_stack (rev es)" "err (fst r) = err st1"
    using drain_stack_element [OF d holds len] by simp_all
  let ?st2 = "(fst r)\<lparr>stack := snd r\<rparr>"
  have h2: "stack_holds ?st2 (rev es)"
    using holds dr(1) by (simp add: stack_holds_def)
  have ws: "snd (write_symbols ?st2 []) = concat (map (\<lambda>e. chemSymbol e @ '' '') (rev es))"
    "err (fst (write_symbols ?st2 [])) = err st1"
    using write_symbols_element [OF h2, of "[]"] dr(2) by simp_all
  have "concat (map (\<lambda>e. chemSymbol e @ '' '') (rev es))
      = concat (map (\<lambda>t. t @ '' '') (map chemSymbol (rev es)))"
    by (simp add: comp_def)
  then have "discard_last_space (snd (write_symbols ?st2 []))
      = join_spaces (map chemSymbol (rev es))"
    by (simp only: ws(1) discard_last_space_concat)
  then show ?thesis
    using w ws(2) by (simp add: case_prod_beta)
qed

lemma processFormula_balanced:
  assumes "checkParentheses formula" and "length formula \<le> unat INT_MAX"
    and "digits_attached True formula"
    and "formula = [] \<or> \<not> isdigit (hd formula) \<or> \<not> strict"
    and run: "processFormula formula = Inr (text, errs)"
  shows "\<exists>tokens. list_all is_token tokens \<and> text = join_spaces tokens
      \<and> (strict \<longrightarrow> errs = [])"
proof -
  let ?st0 = "\<lparr>stack = initUnionStack, poppedData = None, poppedType = None, err = []\<rparr>"
  from run obtain st1 where scan: "processFormula_loop formula ?st0 = Inr st1"
    by (auto simp: processFormula_def split: sum.splits)
  have a: "stack_holds ?st0 []"
    by (simp add: stack_holds_def initUnionStack_def element_stack_def)
  have b: "list_all entry_ok []" by simp
  have c: "isBalanced_scan formula (replicate (open_groups []) (CHR ''(''))"
    using assms(1,2) by (simp add: checkParentheses_scan open_groups_def)
  have e: "formula = [] \<or> \<not> isdigit (hd formula) \<or> top_ok strict []"
    using assms(4) by (simp add: top_ok_def)
  obtain es where es: "stack_holds st1 es"
    "list_all (\<lambda>e. is_token (chemSymbol e)) es"
    "strict \<longrightarrow> err st1 = err ?st0"
    using processFormula_loop_invariant [OF scan a b c assms(3) e] by blast
  have res: "text = join_spaces (map chemSymbol (rev es))" "errs = err st1"
    using processFormula_result [OF run scan es(1)] by simp_all
  have "list_all is_token (map chemSymbol (rev es))"
    using es(2) by (simp add: list_all_iff)
  moreover have "strict \<longrightarrow> errs = []"
    using es(3) res(2) by simp
  ultimately have "list_all is_token (map chemSymbol (rev es))
      \<and> text = join_spaces (map chemSymbol (rev es)) \<and> (strict \<longrightarrow> errs = [])"
    using res(1) by simp
  then show ?thesis by (rule exI)
qed

text \<open>
  Claim C1 (as the code has it). The expansion keeps the order of the formula:
  \<open>H2O\<close> expands to \<open>H H O\<close> and \<open>Mg(OH)2\<close> to \<open>Mg O H O H\<close>, and neither
  call pops an empty stack.
\<close>

theorem C1_expansion_keeps_order:
  "processFormula ''H2O'' = Inr (''H H O'', [])
   \<and> processFormula ''Mg(OH)2'' = Inr (''Mg O H O H'', [])"
  by code_simp

text \<open>The reversed order is not what is returned.\<close>

theorem C1_reversed_order_counterexample:
  "processFormula ''H2O'' = Inr (''H H O'', []) \<and> ''H H O'' \<noteq> ''O H H''
   \<and> processFormula ''Mg(OH)2'' = Inr (''Mg O H O H'', []) \<and> ''Mg O H O H'' \<noteq> ''O H O H Mg''"
  by code_simp

text \<open>
  Claim C7. A multiplier of zero removes the token before it and an empty group adds
  nothing: \<open>H0\<close>, \<open>()\<close> and \<open>()2\<close> all expand to the empty string.
\<close>

theorem C7_zero_multiplier_and_empty_group:
  "processFormula ''H0'' = Inr ([], [])
   \<and> processFormula ''()'' = Inr ([], [])
   \<and> processFormula ''()2'' = Inr ([], [])"
  by code_simp

text \<open>
  Claim C5 (as the code has it). For every formula of at most \<open>INT_MAX\<close> characters
  with balanced parentheses in which every digit comes directly after a letter, a
  closing parenthesis or another digit, or is in a run of digits at the very start of
  the formula: if processFormula returns (no closing parenthesis finds more than
  \<open>MAX_FORMULA_LENGTH\<close> entries to move to \<open>tempArray\<close>, and no stack grows beyond
  \<open>INT_MAX\<close> entries), then the string it returns is a sequence of element tokens (one
  to three letters each) separated by single spaces; it does not end in white space and
  contains neither an opening parenthesis nor a digit.
\<close>

theorem C5_expansion_output_shape:
  "checkParentheses formula \<Longrightarrow> length formula \<le> unat INT_MAX \<Longrightarrow>
   digits_attached True formula \<Longrightarrow> processFormula formula = Inr (text, errs) \<Longrightarrow>
   (\<exists>tokens. list_all is_token tokens \<and> text = join_spaces tokens)
   \<and> (text = [] \<or> isalpha (last text))
   \<and> CHR ''('' \<notin> set text
   \<and> \<not> list_ex isdigit text"
proof -
  assume bal: "checkParentheses formula" and len: "length formula \<le> unat INT_MAX"
    and dig: "digits_attached True formula"
    and run: "processFormula formula = Inr (text, errs)"
  have s: "formula = [] \<or> \<not> isdigit (hd formula) \<or> \<not> False" by simp
  obtain tokens where t: "list_all is_token tokens"
    and out: "text = join_spaces tokens"
    using processFormula_balanced [OF bal len dig s run] by blast
  have chars: "list_all (\<lambda>c. isalpha c \<or> c = CHR '' '') (join_spaces tokens)"
    using t by (rule join_spaces_chars)
  have e: "\<exists>tokens'. list_all is_token tokens' \<and> join_spaces tokens = join_spaces tokens'"
    using t by (intro exI [of _ tokens]) simp
  have f1: "join_spaces tokens = [] \<or> isalpha (last (join_spaces tokens))"
  proof (cases "tokens = []")
    case True
    then show ?thesis by simp
  next
    case False
    with t have "isalpha (last (join_spaces tokens))" by (rule join_spaces_last)
    then show ?thesis by (rule disjI2)
  qed
  have each: "c \<noteq> CHR ''('' \<and> \<not> isdigit c" if "c \<in> set (join_spaces tokens)" for c
  proof -
    from chars that have "isalpha c \<or> c = CHR '' ''"
      by (simp add: list_all_iff)
    then show ?thesis by (rule alpha_or_space)
  qed
  have f2: "CHR ''('' \<notin> set (join_spaces tokens)"
    using each by blast
  have f3: "\<not> list_ex isdigit (join_spaces tokens)"
    using each by (simp add: list_ex_iff)
  show ?thesis
    unfolding out using e f1 f2 f3 by (intro conjI)
qed

theorem C5_expansion_output_shape_witness:
  "checkParentheses ''Mg(OH)2'' \<and> length ''Mg(OH)2'' \<le> unat INT_MAX
   \<and> digits_attached True ''Mg(OH)2''
   \<and> processFormula ''Mg(OH)2'' = Inr (''Mg O H O H'', [])
   \<and> (\<exists>tokens. list_all is_token tokens \<and> ''Mg O H O H'' = join_spaces tokens)
   \<and> (''Mg O H O H'' = [] \<or> isalpha (last ''Mg O H O H''))
   \<and> CHR ''('' \<notin> set ''Mg O H O H''
   \<and> \<not> list_ex isdigit ''Mg O H O H''"
proof -
  have h1: "checkParentheses ''Mg(OH)2''" by code_simp
  have h2: "length ''Mg(OH)2'' \<le> unat INT_MAX" by (simp add: unat_INT_MAX)
  have h3: "digits_attached True ''Mg(OH)2''" by code_simp
  have h4: "processFormula ''Mg(OH)2'' = Inr (''Mg O H O H'', [])" by code_simp
  show ?thesis
    using C5_expansion_output_shape [OF h1 h2 h3 h4] h1 h2 h3 h4 by (intro conjI) blast+
qed

text \<open>
  Balanced parentheses alone do not keep the group marker out of the result: the digit
  after the opening parenthesis of \<open>(2H)\<close> doubles the marker, and one copy is left.
\<close>

theorem C5_group_marker_counterexample:
  "checkParentheses ''(2H)'' \<and> processFormula ''(2H)'' = Inr (''( H'', [])"
  by code_simp

text \<open>
  Claim C3 (as the code has it). For every formula of at most \<open>INT_MAX\<close> characters
  with balanced parentheses in which every digit comes directly after a letter, a
  closing parenthesis or another digit: if processFormula returns (no closing
  parenthesis finds more than \<open>MAX_FORMULA_LENGTH\<close> entries to move to
  \<open>tempArray\<close>, and no stack grows beyond \<open>INT_MAX\<close> entries), then it has never
  called popUnion on an empty stack: nothing was written to the error stream.
\<close>

theorem C3_no_pop_of_empty_stack:
  "checkParentheses formula \<Longrightarrow> length formula \<le> unat INT_MAX \<Longrightarrow>
   digits_attached False formula \<Longrightarrow> processFormula formula = Inr (text, errs) \<Longrightarrow>
   errs = []"
proof -
  assume bal: "checkParentheses formula" and len: "length formula \<le> unat INT_MAX"
    and dig: "digits_attached False formula"
    and run: "processFormula formula = Inr (text, errs)"
  have d: "digits_attached True formula" using dig by (rule digits_attached_mono)
  have s: "formula = [] \<or> \<not> isdigit (hd formula) \<or> \<not> True"
    using digits_attached_False [OF dig] by blast
  show ?thesis
    using processFormula_balanced [OF bal len d s run] by blast
qed

theorem C3_no_pop_of_empty_stack_witness:
  "checkParentheses ''Mg(OH)2'' \<and> length ''Mg(OH)2'' \<le> unat INT_MAX
   \<and> digits_attached False ''Mg(OH)2''
   \<and> processFormula ''Mg(OH)2'' = Inr (''Mg O H O H'', [])
   \<and> ([] :: diagnostic list) = []"
proof -
  have h1: "checkParentheses ''Mg(OH)2''" by code_simp
  have h2: "length ''Mg(OH)2'' \<le> unat INT_MAX" by (simp add: unat_INT_MAX)
  have h3: "digits_attached False ''Mg(OH)2''" by code_simp
  have h4: "processFormula ''Mg(OH)2'' = Inr (''Mg O H O H'', [])" by code_simp
  show ?thesis
    using C3_no_pop_of_empty_stack [OF h1 h2 h3 h4] h1 h2 h3 h4 by (intro conjI)
qed

text \<open>
  Balanced parentheses alone do not exclude a pop of the empty stack: the leading digit
  of \<open>2H2O\<close> pops before anything was pushed.
\<close>

theorem C3_leading_digit_counterexample:
  "checkParentheses ''2H2O'' \<and> processFormula ''2H2O'' = Inr (''H H O'', [PopEmptyStack])"
  by code_simp

end
